theory Spec2Isabelle
  imports Complex_Main "HOL-Library.Sublist"
begin

section \<open>BookByte: the OpenAI paragraph-extraction service\<close>

text \<open>
  A shallow embedding of \<^verbatim>\<open>backend/app/core/services.py\<close> (class
  \<^verbatim>\<open>OpenAIService\<close>). Python strings are lists of characters; a character
  stands for a code point below 256. Python's unbounded integers are \<open>int\<close>; the
  loop counter of \<^verbatim>\<open>enumerate\<close> and the result of \<^verbatim>\<open>len\<close> are \<open>nat\<close>.
  The \<^verbatim>\<open>print\<close> diagnostics are left out: they change no value the functions return.

  Two library functions are not code of the service. \<^verbatim>\<open>json.loads\<close> is a parameter
  \<open>json_loads\<close> of every function that calls it (\<open>None\<close> stands for
  \<^verbatim>\<open>json.JSONDecodeError\<close>). \<^verbatim>\<open>re.search\<close> is modelled below, for the
  operators the four patterns of the source use, by a backtracking matcher that
  explores the alternatives in the order of Python's \<^verbatim>\<open>re\<close> module.
\<close>

subsection \<open>Python strings\<close>

text \<open>\<^verbatim>\<open>s[start:stop]\<close>: a negative index counts from the end, and both are clamped.\<close>

definition py_slice :: "'a list \<Rightarrow> int \<Rightarrow> int \<Rightarrow> 'a list" where
  "py_slice s start stop =
     (let n = int (length s);
          a = (if start < 0 then max 0 (start + n) else min start n);
          b = (if stop < 0 then max 0 (stop + n) else min stop n)
      in take (nat (b - a)) (drop (nat a) s))"

text \<open>\<^verbatim>\<open>sub in s\<close> on strings.\<close>

fun occurs_in :: "string \<Rightarrow> string \<Rightarrow> bool" where
  "occurs_in sub [] = (sub = [])"
| "occurs_in sub (c # cs) = (prefix sub (c # cs) \<or> occurs_in sub cs)"

text \<open>\<^verbatim>\<open>str(n)\<close> for a non-negative integer.\<close>

function str_nat :: "nat \<Rightarrow> string" where
  "str_nat n = (if n < 10 then [''0123456789'' ! n]
                else str_nat (n div 10) @ [''0123456789'' ! (n mod 10)])"
  by pat_completeness auto
termination
  by (relation "measure id") auto

declare str_nat.simps [simp del]

subsection \<open>The chunker\<close>

text \<open>
  \<^verbatim>\<open>_chunk_book_text\<close>, lines 64-72. The \<^verbatim>\<open>while\<close> loop runs forever on a
  non-empty text when \<^verbatim>\<open>chunk_size\<close> is not positive, so the loop is a partial
  function: \<open>None\<close> means that it does not return.
\<close>

partial_function (option) chunk_loop ::
  "string \<Rightarrow> int \<Rightarrow> int \<Rightarrow> string list \<Rightarrow> string list option" where
  "chunk_loop text chunk_size current_index chunks =
     (if current_index < int (length text)
      then chunk_loop text chunk_size (current_index + chunk_size)
             (chunks @ [py_slice text current_index (current_index + chunk_size)])
      else Some chunks)"

declare chunk_loop.simps [code]

definition chunk_book_text :: "string \<Rightarrow> int \<Rightarrow> string list option" where
  "chunk_book_text text chunk_size = chunk_loop text chunk_size 0 []"

text \<open>
  The windows of width \<open>n\<close> of a list, by recursion on the list: the reference the loop
  is compared with in the proofs. It is not part of the service.
\<close>

function slices :: "nat \<Rightarrow> 'a list \<Rightarrow> 'a list list" where
  "slices n xs = (if n = 0 \<or> xs = [] then [] else take n xs # slices n (drop n xs))"
  by pat_completeness auto
termination
  by (relation "measure (\<lambda>(n, xs). length xs)") auto

declare slices.simps [simp del]

subsection \<open>Regular expressions\<close>

text \<open>
  \<open>Space\<close> is \<^verbatim>\<open>\s\<close>, \<open>AnyChar\<close> is \<^verbatim>\<open>[\s\S]\<close>, \<open>Star\<close> is the greedy
  \<^verbatim>\<open>*\<close> and \<open>StarLazy\<close> is \<^verbatim>\<open>*?\<close>. For a \<^verbatim>\<open>str\<close> pattern \<^verbatim>\<open>\s\<close>
  matches the Unicode whitespace characters; these are the ones below 256.
\<close>

definition is_space :: "char \<Rightarrow> bool" where
  "is_space c = (c \<in> set [CHR 0x09, CHR 0x0A, CHR 0x0B, CHR 0x0C, CHR 0x0D,
                           CHR 0x1C, CHR 0x1D, CHR 0x1E, CHR 0x1F, CHR 0x20,
                           CHR 0x85, CHR 0xA0])"

datatype regex =
    Eps
  | Lit char
  | Space
  | AnyChar
  | Seq regex regex
  | Star regex
  | StarLazy regex

text \<open>
  \<open>matches r s\<close> lists what is left of \<open>s\<close> after each way in which \<open>r\<close> matches a
  prefix of \<open>s\<close>, in the order in which a backtracking matcher tries them: the greedy
  star tries one more iteration before it tries to stop, the lazy star the other way
  round. An iteration that consumes nothing is not repeated.
\<close>

primrec star_greedy :: "(string \<Rightarrow> string list) \<Rightarrow> nat \<Rightarrow> string \<Rightarrow> string list" where
  "star_greedy m 0 s = [s]"
| "star_greedy m (Suc n) s =
     concat (map (\<lambda>s'. if length s' < length s then star_greedy m n s' else []) (m s)) @ [s]"

primrec star_lazy :: "(string \<Rightarrow> string list) \<Rightarrow> nat \<Rightarrow> string \<Rightarrow> string list" where
  "star_lazy m 0 s = [s]"
| "star_lazy m (Suc n) s =
     s # concat (map (\<lambda>s'. if length s' < length s then star_lazy m n s' else []) (m s))"

primrec matches :: "regex \<Rightarrow> string \<Rightarrow> string list" where
  "matches Eps = (\<lambda>s. [s])"
| "matches (Lit c) = (\<lambda>s. case s of [] \<Rightarrow> [] | x # xs \<Rightarrow> if x = c then [xs] else [])"
| "matches Space = (\<lambda>s. case s of [] \<Rightarrow> [] | x # xs \<Rightarrow> if is_space x then [xs] else [])"
| "matches AnyChar = (\<lambda>s. case s of [] \<Rightarrow> [] | x # xs \<Rightarrow> [xs])"
| "matches (Seq r1 r2) = (\<lambda>s. concat (map (matches r2) (matches r1 s)))"
| "matches (Star r) = (\<lambda>s. star_greedy (matches r) (length s) s)"
| "matches (StarLazy r) = (\<lambda>s. star_lazy (matches r) (length s) s)"

text \<open>A literal string, and the sequence of several expressions.\<close>

definition lits :: "string \<Rightarrow> regex" where
  "lits s = foldr (\<lambda>c r. Seq (Lit c) r) s Eps"

definition seqs :: "regex list \<Rightarrow> regex" where
  "seqs rs = foldr Seq rs Eps"

text \<open>The part of \<open>s\<close> in front of its suffix \<open>rest\<close>.\<close>

definition consumed :: "string \<Rightarrow> string \<Rightarrow> string" where
  "consumed s rest = take (length s - length rest) s"

text \<open>
  \<^verbatim>\<open>re.search(r, s)\<close> followed by \<^verbatim>\<open>.group(0)\<close>: the first match at the leftmost
  position that has one.
\<close>

definition match_at :: "regex \<Rightarrow> string \<Rightarrow> string option" where
  "match_at r s = (case matches r s of [] \<Rightarrow> None | rest # _ \<Rightarrow> Some (consumed s rest))"

fun re_search :: "regex \<Rightarrow> string \<Rightarrow> string option" where
  "re_search r [] = match_at r []"
| "re_search r (c # cs) =
     (case match_at r (c # cs) of Some m \<Rightarrow> Some m | None \<Rightarrow> re_search r cs)"

text \<open>
  \<^verbatim>\<open>re.search\<close> followed by \<^verbatim>\<open>.group(1)\<close> for a pattern \<^verbatim>\<open>pre(grp)post\<close>
  with one capturing group.
\<close>

definition group1_at :: "regex \<Rightarrow> regex \<Rightarrow> regex \<Rightarrow> string \<Rightarrow> string option" where
  "group1_at pre grp post s =
     (case concat (map (\<lambda>s1. concat (map (\<lambda>s2. if matches post s2 = [] then []
                                                  else [consumed s1 s2])
                                         (matches grp s1)))
                       (matches pre s)) of
        [] \<Rightarrow> None
      | g # _ \<Rightarrow> Some g)"

fun re_search_group1 :: "regex \<Rightarrow> regex \<Rightarrow> regex \<Rightarrow> string \<Rightarrow> string option" where
  "re_search_group1 pre grp post [] = group1_at pre grp post []"
| "re_search_group1 pre grp post (c # cs) =
     (case group1_at pre grp post (c # cs) of
        Some g \<Rightarrow> Some g
      | None \<Rightarrow> re_search_group1 pre grp post cs)"

text \<open>
  The patterns of lines 162, 168, 177 and 181. The fenced patterns are given as the part
  in front of the group and the part behind it; the group is \<^verbatim>\<open>[\s\S]*?\<close> in both.
\<close>

definition json_fence_open :: regex where
  "json_fence_open = seqs [lits ''```json'', Star Space]"

definition fence_open :: regex where
  "fence_open = seqs [lits ''```'', Star Space]"

definition fence_close :: regex where
  "fence_close = seqs [Star Space, lits ''```'']"

definition paragraphs_object_re :: regex where
  "paragraphs_object_re =
     seqs [Lit CHR ''{'', Star Space, lits ''\"paragraphs\"'', Star Space, Lit CHR '':'',
           Star Space, Lit CHR ''['', StarLazy AnyChar, Lit CHR '']'', Star Space,
           Lit CHR ''}'']"

definition any_object_re :: regex where
  "any_object_re = seqs [Lit CHR ''{'', Star AnyChar, Lit CHR ''}'']"

subsection \<open>JSON values\<close>

text \<open>
  What \<^verbatim>\<open>json.loads\<close> returns. An object is a Python \<^verbatim>\<open>dict\<close>, kept as the list
  of its items; \<^verbatim>\<open>d.get(k)\<close> is \<open>map_of d k\<close>.
\<close>

datatype json =
    JNull
  | JBool bool
  | JInt int
  | JFloat real
  | JString string
  | JArray "json list"
  | JObject "(string \<times> json) list"

text \<open>Python's truth value of a JSON value (\<^verbatim>\<open>not v\<close> is its negation).\<close>

fun truthy :: "json \<Rightarrow> bool" where
  "truthy JNull = False"
| "truthy (JBool b) = b"
| "truthy (JInt i) = (i \<noteq> 0)"
| "truthy (JFloat x) = (x \<noteq> 0)"
| "truthy (JString s) = (s \<noteq> [])"
| "truthy (JArray xs) = (xs \<noteq> [])"
| "truthy (JObject d) = (d \<noteq> [])"

subsection \<open>Errors\<close>

text \<open>
  Every exception of the service is a plain \<^verbatim>\<open>Exception\<close> with a message; a
  constructor stands for the place that raises it. \<open>OpenAI_API_call_failed\<close> is line 127
  and carries the text of the API error, \<open>OpenAI_returned_empty_response\<close> is line 139,
  \<open>Could_not_extract_JSON\<close> is line 190 and \<open>Invalid_response_format\<close> is line 210.
  \<open>IndexError\<close> is \<^verbatim>\<open>completion.choices[0]\<close> on an empty list (line 129) and
  \<open>AttributeError\<close> is \<^verbatim>\<open>.get\<close> on a parsed value that is no \<^verbatim>\<open>dict\<close>
  (line 209). The handler of line 214 wraps each of them with the position of the
  sub-chunk (line 219). \<open>OPENAI_API_KEY_not_configured\<close> is the \<^verbatim>\<open>ValueError\<close> of
  line 22.
\<close>

datatype cause =
    OpenAI_API_call_failed string
  | OpenAI_returned_empty_response
  | Could_not_extract_JSON
  | Invalid_response_format
  | IndexError
  | AttributeError

datatype error =
    OPENAI_API_KEY_not_configured
  | Failed_to_process_chunk nat nat cause

subsection \<open>Recovering the paragraphs from the completion text\<close>

text \<open>Line 142: the check that the response has no extractable paragraphs.\<close>

definition no_extractable_paragraphs :: "string \<Rightarrow> bool" where
  "no_extractable_paragraphs text_content =
     (CHR ''{'' \<notin> set text_content \<or> \<not> occurs_in ''paragraphs'' text_content)"

text \<open>Lines 209-212: the check of the parsed response.\<close>

definition check_paragraphs :: "json \<Rightarrow> cause + json list" where
  "check_paragraphs parsed_response =
     (if \<not> truthy parsed_response then Inl Invalid_response_format
      else case parsed_response of
        JObject d \<Rightarrow>
          (case map_of d ''paragraphs'' of
             None \<Rightarrow> Inl Invalid_response_format
           | Some p \<Rightarrow>
               if \<not> truthy p then Inl Invalid_response_format
               else (case p of
                       JArray xs \<Rightarrow> Inr xs
                     | _ \<Rightarrow> Inl Invalid_response_format))
      | _ \<Rightarrow> Inl AttributeError)"

text \<open>Lines 157-171: the inner text of a fenced code block, when there is one.\<close>

definition fenced_json_text :: "string \<Rightarrow> string" where
  "fenced_json_text text_content =
     (if occurs_in ''```json'' text_content then
        (case re_search_group1 json_fence_open (StarLazy AnyChar) fence_close text_content of
           Some g \<Rightarrow> g
         | None \<Rightarrow> text_content)
      else if occurs_in ''```'' text_content then
        (case re_search_group1 fence_open (StarLazy AnyChar) fence_close text_content of
           Some g \<Rightarrow> g
         | None \<Rightarrow> text_content)
      else text_content)"

text \<open>Lines 177-181: the candidate JSON object.\<close>

definition find_json_object :: "string \<Rightarrow> string option" where
  "find_json_object json_text =
     (case re_search paragraphs_object_re json_text of
        Some m \<Rightarrow> Some m
      | None \<Rightarrow> re_search any_object_re json_text)"

text \<open>Lines 193-198: the missing closing brackets are appended.\<close>

definition repair_brackets :: "string \<Rightarrow> string" where
  "repair_brackets json_str =
     (let s1 = (if count_list json_str CHR ''['' > count_list json_str CHR '']''
                then json_str @ replicate (count_list json_str CHR ''[''
                                           - count_list json_str CHR '']'') CHR '']''
                else json_str)
      in if count_list s1 CHR ''{'' > count_list s1 CHR ''}''
         then s1 @ replicate (count_list s1 CHR ''{'' - count_list s1 CHR ''}'') CHR ''}''
         else s1)"

text \<open>Lines 149-212: the direct parse, the extraction after it fails, and the check.\<close>

definition parse_response :: "(string \<Rightarrow> json option) \<Rightarrow> string \<Rightarrow> cause + json list" where
  "parse_response json_loads text_content =
     (case json_loads text_content of
        Some parsed_response \<Rightarrow> check_paragraphs parsed_response
      | None \<Rightarrow>
          (case find_json_object (fenced_json_text text_content) of
             None \<Rightarrow> if text_content \<noteq> [] then Inr [] else Inl Could_not_extract_JSON
           | Some json_object_match \<Rightarrow>
               (case json_loads (repair_brackets json_object_match) of
                  None \<Rightarrow> Inr []
                | Some parsed_response \<Rightarrow> check_paragraphs parsed_response)))"

text \<open>Lines 135-212: what \<^verbatim>\<open>_process_single_chunk\<close> does with the completion text.\<close>

definition recover_paragraphs :: "(string \<Rightarrow> json option) \<Rightarrow> string \<Rightarrow> cause + json list" where
  "recover_paragraphs json_loads text_content =
     (if text_content = [] then Inl OpenAI_returned_empty_response
      else if no_extractable_paragraphs text_content then Inr []
      else parse_response json_loads text_content)"

subsection \<open>The backend call\<close>

text \<open>
  The service holds the API key and the model name. The OpenAI client is a parameter
  \<open>backend\<close>: it takes its own state and a request, and returns either the text of the
  API error or a completion, with its next state. The world that the service runs in is
  the state of the backend and the requests sent so far, oldest first.
\<close>

record service =
  api_key :: string
  model :: string

record request =
  req_model :: string
  req_content :: string
  max_completion_tokens :: nat
  timeout :: nat

record choice =
  content :: "string option"
  finish_reason :: string

record completion =
  choices :: "choice list"

record 's world =
  backend_state :: 's
  sent :: "request list"

type_synonym 's backend = "'s \<Rightarrow> request \<Rightarrow> (string + completion) \<times> 's"

text \<open>Lines 78-107: the prompt.\<close>

definition prompt_lines :: "string list" where
  "prompt_lines =
     [''You are a text processing assistant. Analyze the following book text and extract all paragraphs.'',
      '''',
      ''CRITICAL REQUIREMENTS - FOLLOW EXACTLY:'',
      ''1. Each paragraph MUST be between 3-7 sentences (NO MORE, NO LESS)'',
      ''2. NEVER create single-word or single-sentence paragraphs'',
      ''3. NEVER create paragraphs longer than 7 sentences'',
      ''4. Count sentences carefully - a sentence ends with . ! or ?'',
      ''5. If dialogue is short, combine multiple exchanges into one paragraph (up to 7 sentences)'',
      ''6. Preserve the original text exactly (no summarization or modification)'',
      ''7. Skip empty lines, page numbers, headers, footers, chapter titles'',
      ''8. Do NOT include table of contents, index, or chapter listings'',
      ''9. Skip prefaces and forewords if not part of main narrative'',
      ''10. Split very long paragraphs into multiple smaller ones (3-7 sentences each)'',
      '''',
      ''PARAGRAPH SIZE RULES:'',
      ''- Minimum: 3 sentences'',
      ''- Maximum: 7 sentences'',
      ''- Target: 4-6 sentences per paragraph'',
      ''- If original paragraph is 15 sentences, split it into 3 paragraphs of 5 sentences each'',
      '''',
      ''Return ONLY a valid JSON object in this exact format with no additional text:'',
      ''{'',
      ''  \"paragraphs\": ['',
      ''    \"First paragraph text here...\",'',
      ''    \"Second paragraph text here...\"'',
      ''  ]'',
      ''}'',
      '''']"

definition build_prompt :: "nat \<Rightarrow> nat \<Rightarrow> string \<Rightarrow> string" where
  "build_prompt sub_index sub_total book_text =
     concat (map (\<lambda>l. l @ [CHR 0x0A]) prompt_lines)
     @ ''Book text (Chunk '' @ str_nat sub_index @ ''/'' @ str_nat sub_total @ ''):''
     @ [CHR 0x0A] @ book_text"

text \<open>Lines 114-124: the request of one sub-chunk.\<close>

definition chunk_request :: "service \<Rightarrow> nat \<Rightarrow> nat \<Rightarrow> string \<Rightarrow> request" where
  "chunk_request self sub_index sub_total book_text =
     \<lparr>req_model = model self,
      req_content = build_prompt sub_index sub_total book_text,
      max_completion_tokens = 16000,
      timeout = 180\<rparr>"

text \<open>
  \<^verbatim>\<open>_process_single_chunk\<close>, lines 74-219. \<^verbatim>\<open>chunk_index\<close> and
  \<^verbatim>\<open>total_chunks\<close> are parameters of the source function, which does not read them.
\<close>

definition process_single_chunk ::
  "(string \<Rightarrow> json option) \<Rightarrow> 's backend \<Rightarrow> service \<Rightarrow> string \<Rightarrow> int \<Rightarrow> int \<Rightarrow> nat \<Rightarrow> nat
   \<Rightarrow> 's world \<Rightarrow> (error + json list) \<times> 's world" where
  "process_single_chunk json_loads backend self book_text chunk_index total_chunks
     sub_index sub_total w =
     (let rq = chunk_request self sub_index sub_total book_text;
          (reply, s') = backend (backend_state w) rq;
          w' = \<lparr>backend_state = s', sent = sent w @ [rq]\<rparr>
      in case reply of
           Inl api_error \<Rightarrow>
             (Inl (Failed_to_process_chunk sub_index sub_total
                     (OpenAI_API_call_failed api_error)), w')
         | Inr completion \<Rightarrow>
             (case choices completion of
                [] \<Rightarrow> (Inl (Failed_to_process_chunk sub_index sub_total IndexError), w')
              | c # _ \<Rightarrow>
                  (case recover_paragraphs json_loads
                          (case content c of None \<Rightarrow> [] | Some t \<Rightarrow> t) of
                     Inl e \<Rightarrow> (Inl (Failed_to_process_chunk sub_index sub_total e), w')
                   | Inr paragraphs \<Rightarrow> (Inr paragraphs, w'))))"

subsection \<open>The orchestrator\<close>

text \<open>
  The loop of lines 33-45 over the sub-chunks that are left: \<open>sub_chunk_index\<close> is the
  index of the first of them, \<open>sub_total\<close> is \<^verbatim>\<open>len(text_chunks)\<close>. An exception
  leaves the loop.
\<close>

fun process_chunks ::
  "(string \<Rightarrow> json option) \<Rightarrow> 's backend \<Rightarrow> service \<Rightarrow> int \<Rightarrow> int \<Rightarrow> nat \<Rightarrow> nat
   \<Rightarrow> string list \<Rightarrow> json list \<Rightarrow> 's world \<Rightarrow> (error + json list) \<times> 's world" where
  "process_chunks json_loads backend self chunk_index total_chunks sub_total
     sub_chunk_index [] all_paragraphs w = (Inr all_paragraphs, w)"
| "process_chunks json_loads backend self chunk_index total_chunks sub_total
     sub_chunk_index (text_chunk # rest) all_paragraphs w =
     (case process_single_chunk json_loads backend self text_chunk chunk_index total_chunks
             sub_chunk_index sub_total w of
        (Inl e, w') \<Rightarrow> (Inl e, w')
      | (Inr paragraphs, w') \<Rightarrow>
          process_chunks json_loads backend self chunk_index total_chunks sub_total
            (Suc sub_chunk_index) rest (all_paragraphs @ paragraphs) w')"

record aggregate =
  status :: string
  paragraphs :: "json list"
  total_paragraphs :: nat

text \<open>
  \<^verbatim>\<open>process_book_text\<close>, lines 15-51. The result is \<open>None\<close> when the chunker does
  not return.
\<close>

definition process_book_text ::
  "(string \<Rightarrow> json option) \<Rightarrow> 's backend \<Rightarrow> service \<Rightarrow> string \<Rightarrow> int \<Rightarrow> int
   \<Rightarrow> 's world \<Rightarrow> ((error + aggregate) \<times> 's world) option" where
  "process_book_text json_loads backend self book_text chunk_index total_chunks w =
     (if api_key self = [] then Some (Inl OPENAI_API_KEY_not_configured, w)
      else case chunk_book_text book_text 100000 of
             None \<Rightarrow> None
           | Some text_chunks \<Rightarrow>
               (case process_chunks json_loads backend self chunk_index total_chunks
                       (length text_chunks) 1 text_chunks [] w of
                  (Inl e, w') \<Rightarrow> Some (Inl e, w')
                | (Inr all_paragraphs, w') \<Rightarrow>
                    Some (Inr \<lparr>status = ''success'', paragraphs = all_paragraphs,
                               total_paragraphs = length all_paragraphs\<rparr>, w')))"

subsection \<open>Test doubles\<close>

text \<open>
  A backend that answers its \<open>n\<close>-th call with the \<open>n\<close>-th reply of a script, whatever
  the request; its state is the number of calls made so far. A completion with one choice
  that stopped normally. Both are used to run the service on concrete inputs; a
  \<open>json_loads\<close> for such a run is the \<open>map_of\<close> of a table of texts and their values.
\<close>

definition scripted_backend :: "(string + completion) list \<Rightarrow> nat backend" where
  "scripted_backend replies n rq =
     (if n < length replies then replies ! n else Inl ''no reply left'', Suc n)"

definition text_completion :: "string \<Rightarrow> completion" where
  "text_completion t = \<lparr>choices = [\<lparr>content = Some t, finish_reason = ''stop''\<rparr>]\<rparr>"

text \<open>
  A text of three sub-chunks (two full ones and a shorter last one), a service, a
  \<open>json_loads\<close> that knows two texts, and the request of the \<open>j\<close>-th sub-chunk of
  the long text (counted from 0).
\<close>

definition long_text :: string where
  "long_text = replicate 250000 CHR ''x''"

definition long_text_chunks :: "string list" where
  "long_text_chunks =
     [replicate 100000 CHR ''x'', replicate 100000 CHR ''x'', replicate 50000 CHR ''x'']"

definition test_service :: service where
  "test_service = \<lparr>api_key = ''sk-test'', model = ''gpt-4o''\<rparr>"

definition test_json_loads :: "string \<Rightarrow> json option" where
  "test_json_loads =
     map_of [(''{\"paragraphs\": [\"a\"]}'', JObject [(''paragraphs'', JArray [JString ''a''])]),
             (''{\"paragraphs\": [\"b\", \"c\"]}'',
              JObject [(''paragraphs'', JArray [JString ''b'', JString ''c''])])]"

definition test_request :: "nat \<Rightarrow> request" where
  "test_request j = chunk_request test_service (Suc j) 3 (long_text_chunks ! j)"

section \<open>Properties of the chunker\<close>

lemma py_slice_window:
  assumes "0 \<le> i" and "i < int (length s)" and "0 < k"
  shows "py_slice s i (i + k) = take (nat k) (drop (nat i) s)"
proof -
  have "nat (min (i + k) (int (length s)) - i) = min (nat k) (length s - nat i)"
    using assms by (auto simp: min_def)
  then show ?thesis
    using assms by (simp add: py_slice_def Let_def min_def)
qed

lemma chunk_loop_slices:
  "0 < cs \<Longrightarrow> 0 \<le> ci \<Longrightarrow>
   chunk_loop text cs ci acc = Some (acc @ slices (nat cs) (drop (nat ci) text))"
proof (induction "length text - nat ci" arbitrary: ci acc rule: less_induct)
  case less
  show ?case
  proof (cases "ci < int (length text)")
    case False
    then have "drop (nat ci) text = []" using less.prems by simp
    then show ?thesis using False
      by (subst chunk_loop.simps) (simp add: slices.simps)
  next
    case True
    let ?c = "py_slice text ci (ci + cs)"
    have lt: "length text - nat (ci + cs) < length text - nat ci"
      using True less.prems by linarith
    have ih: "chunk_loop text cs (ci + cs) (acc @ [?c])
          = Some ((acc @ [?c]) @ slices (nat cs) (drop (nat (ci + cs)) text))"
      using less.hyps [OF lt, of "acc @ [?c]"] less.prems by simp
    have ne: "drop (nat ci) text \<noteq> []" using True less.prems by simp
    have dd: "drop (nat (ci + cs)) text = drop (nat cs) (drop (nat ci) text)"
      using less.prems by (simp add: nat_add_distrib add.commute)
    have "slices (nat cs) (drop (nat ci) text)
          = take (nat cs) (drop (nat ci) text) # slices (nat cs) (drop (nat (ci + cs)) text)"
      using ne less.prems by (subst slices.simps) (simp add: dd)
    then show ?thesis
      using True ih less.prems
      by (subst chunk_loop.simps) (simp add: py_slice_window)
  qed
qed

lemma chunk_book_text_slices:
  "0 < chunk_size \<Longrightarrow> chunk_book_text text chunk_size = Some (slices (nat chunk_size) text)"
  using chunk_loop_slices [of chunk_size 0 _ "[]"] by (simp add: chunk_book_text_def)

lemma concat_slices: "0 < n \<Longrightarrow> concat (slices n xs) = xs"
proof (induction n xs rule: slices.induct)
  case (1 n xs)
  then show ?case by (subst slices.simps) auto
qed

lemma slices_Nil_iff: "0 < n \<Longrightarrow> slices n xs = [] \<longleftrightarrow> xs = []"
  by (subst slices.simps) simp

lemma slices_nth_length:
  "0 < n \<Longrightarrow> Suc i < length (slices n xs) \<Longrightarrow> length (slices n xs ! i) = n"
proof (induction n xs arbitrary: i rule: slices.induct)
  case (1 n xs)
  from "1.prems" have ne: "xs \<noteq> []" by (subst (asm) slices.simps) auto
  have unfold: "slices n xs = take n xs # slices n (drop n xs)"
    using ne "1.prems"(1) by (subst slices.simps) simp
  show ?case
  proof (cases i)
    case 0
    with "1.prems" unfold have "slices n (drop n xs) \<noteq> []" by auto
    then have "drop n xs \<noteq> []" using "1.prems"(1) by (simp add: slices_Nil_iff)
    then show ?thesis using 0 unfold by simp
  next
    case (Suc j)
    then have "Suc j < length (slices n (drop n xs))" using "1.prems" unfold by simp
    then have "length (slices n (drop n xs) ! j) = n"
      using "1.IH" ne "1.prems"(1) by simp
    then show ?thesis using Suc unfold by simp
  qed
qed

lemma slices_last_length:
  "0 < n \<Longrightarrow> xs \<noteq> [] \<Longrightarrow>
   length (last (slices n xs)) = (if length xs mod n = 0 then n else length xs mod n)"
proof (induction n xs rule: slices.induct)
  case (1 n xs)
  have unfold: "slices n xs = take n xs # slices n (drop n xs)"
    using "1.prems" by (subst slices.simps) simp
  show ?case
  proof (cases "drop n xs = []")
    case True
    then have le: "length xs \<le> n" by simp
    have "slices n (drop n xs) = []" using True "1.prems" by (simp add: slices_Nil_iff)
    then have "length (last (slices n xs)) = length xs" using unfold le by simp
    moreover have "0 < length xs" using "1.prems" by simp
    ultimately show ?thesis using le by (cases "length xs = n") auto
  next
    case False
    then have gt: "n < length xs" by simp
    have "slices n (drop n xs) \<noteq> []" using False "1.prems" by (simp add: slices_Nil_iff)
    then have "last (slices n xs) = last (slices n (drop n xs))" using unfold by simp
    moreover have "length (last (slices n (drop n xs)))
        = (if length (drop n xs) mod n = 0 then n else length (drop n xs) mod n)"
      using "1.IH" "1.prems" False by simp
    moreover have "(length xs - n) mod n = length xs mod n"
      using gt by (simp add: le_mod_geq)
    ultimately show ?thesis by simp
  qed
qed

text \<open>
  Claim C5. For every string \<open>s\<close> and every positive \<open>chunk_size\<close> the chunker
  returns, and the concatenation of its chunks, in order, is \<open>s\<close>.
\<close>

theorem chunk_book_text_concat:
  "0 < chunk_size \<Longrightarrow>
   \<exists>chunks. chunk_book_text s chunk_size = Some chunks \<and> concat chunks = s"
  by (simp add: chunk_book_text_slices concat_slices)

theorem chunk_book_text_concat_witness:
  "(0::int) < 3 \<and> chunk_book_text ''abcdefg'' 3 = Some [''abc'', ''def'', ''g'']
   \<and> concat [''abc'', ''def'', ''g''] = ''abcdefg''"
  using chunk_book_text_concat [of 3 "''abcdefg''"]
  by (simp add: chunk_book_text_def chunk_loop.simps py_slice_def)

text \<open>
  Claim C6. For every string \<open>s\<close> and every positive \<open>chunk_size\<close> the chunker
  returns; every chunk but the last has length \<open>chunk_size\<close>; the last chunk has length
  \<open>len(s) mod chunk_size\<close>, or \<open>chunk_size\<close> when that is zero; and there is no chunk
  exactly when \<open>s\<close> is empty.
\<close>

theorem chunk_book_text_lengths:
  "0 < chunk_size \<Longrightarrow>
   \<exists>chunks. chunk_book_text s chunk_size = Some chunks
     \<and> (\<forall>i. Suc i < length chunks \<longrightarrow> int (length (chunks ! i)) = chunk_size)
     \<and> (chunks \<noteq> [] \<longrightarrow>
          int (length (last chunks))
            = (if int (length s) mod chunk_size = 0 then chunk_size
               else int (length s) mod chunk_size))
     \<and> (chunks = [] \<longleftrightarrow> s = [])"
proof -
  assume pos: "0 < chunk_size"
  let ?n = "nat chunk_size"
  have n: "0 < ?n" and cs_eq: "int ?n = chunk_size" using pos by simp_all
  have md: "int (length s mod ?n) = int (length s) mod chunk_size"
    using cs_eq by (metis zmod_int)
  have a: "\<forall>i. Suc i < length (slices ?n s) \<longrightarrow> int (length (slices ?n s ! i)) = chunk_size"
  proof (intro allI impI)
    fix i
    assume "Suc i < length (slices ?n s)"
    then have "length (slices ?n s ! i) = ?n" by (rule slices_nth_length [OF n])
    then show "int (length (slices ?n s ! i)) = chunk_size" using pos by simp
  qed
  have b: "slices ?n s \<noteq> [] \<longrightarrow>
          int (length (last (slices ?n s)))
            = (if int (length s) mod chunk_size = 0 then chunk_size
               else int (length s) mod chunk_size)"
  proof
    assume "slices ?n s \<noteq> []"
    then have "s \<noteq> []" using n by (simp add: slices_Nil_iff)
    from slices_last_length [OF n this] show "int (length (last (slices ?n s)))
            = (if int (length s) mod chunk_size = 0 then chunk_size
               else int (length s) mod chunk_size)"
      using cs_eq md by (auto split: if_splits)
  qed
  have c: "slices ?n s = [] \<longleftrightarrow> s = []" using n by (simp add: slices_Nil_iff)
  show ?thesis
    using a b c by (simp add: chunk_book_text_slices [OF pos])
qed

theorem chunk_book_text_lengths_witness:
  "(0::int) < 3 \<and> chunk_book_text ''abcdefg'' 3 = Some [''abc'', ''def'', ''g'']
   \<and> length ([''abc'', ''def'', ''g''] ! 0) = 3 \<and> length ([''abc'', ''def'', ''g''] ! 1) = 3
   \<and> length (last [''abc'', ''def'', ''g'']) = 7 mod 3
   \<and> chunk_book_text ''abcdef'' 3 = Some [''abc'', ''def'']
   \<and> length (last [''abc'', ''def'']) = 3
   \<and> chunk_book_text [] 3 = Some []"
  using chunk_book_text_lengths [of 3 "''abcdefg''"] chunk_book_text_lengths [of 3 "''abcdef''"]
    chunk_book_text_lengths [of 3 "[]"]
  by (simp add: chunk_book_text_def chunk_loop.simps py_slice_def)

section \<open>Properties of the response recovery\<close>

text \<open>The substring test is the one of the list library.\<close>

lemma occurs_in_sublist: "occurs_in sub s \<longleftrightarrow> sublist sub s"
  by (induction s) (auto simp: sublist_Cons_right)

lemma no_extractable_paragraphs_iff:
  "no_extractable_paragraphs t \<longleftrightarrow> CHR ''{'' \<notin> set t \<or> \<not> sublist ''paragraphs'' t"
  by (simp add: no_extractable_paragraphs_def occurs_in_sublist)

text \<open>
  The patterns on examples: the inner text of a fenced block, the smallest
  \<^verbatim>\<open>{"paragraphs": [...]}\<close> span, the broadest \<^verbatim>\<open>{...}\<close> span when there is
  none, and the closing brackets that are appended.
\<close>

lemma fenced_json_text_example:
  "fenced_json_text (''Sure:'' @ [CHR 0x0A] @ ''```json'' @ [CHR 0x0A]
                     @ ''{\"paragraphs\": [\"a\"]}'' @ [CHR 0x0A] @ ''```'' @ [CHR 0x0A] @ ''Done.'')
   = ''{\"paragraphs\": [\"a\"]}''"
  by code_simp

lemma find_json_object_smallest:
  "find_json_object ''x {\"paragraphs\" : [\"a\", \"b\"] } y {\"k\": [1]} z''
   = Some ''{\"paragraphs\" : [\"a\", \"b\"] }''"
  by code_simp

lemma find_json_object_broadest:
  "find_json_object ''x {\"k\": 1} y {\"l\": 2} z'' = Some ''{\"k\": 1} y {\"l\": 2}''"
  by code_simp

lemma repair_brackets_example:
  "repair_brackets ''{\"a\": [[1, {\"b\": 2}'' = ''{\"a\": [[1, {\"b\": 2}]]}''"
  by code_simp

text \<open>The check of a parsed object, by cases on its \<^verbatim>\<open>paragraphs\<close> field.\<close>

lemma check_paragraphs_object:
  "check_paragraphs (JObject d) =
     (case map_of d ''paragraphs'' of
        None \<Rightarrow> Inl Invalid_response_format
      | Some (JArray xs) \<Rightarrow> if xs = [] then Inl Invalid_response_format else Inr xs
      | Some _ \<Rightarrow> Inl Invalid_response_format)"
  by (cases d) (auto simp: check_paragraphs_def split: option.splits json.splits)

subsection \<open>The narrative-content gate\<close>

text \<open>
  Claim C1, as amended. The check of line 142 holds exactly when the completion text
  has no \<^verbatim>\<open>{\<close> or does not have the substring \<^verbatim>\<open>paragraphs\<close>: one of the two is
  enough. For a non-empty completion text the recovery returns the empty list when the
  check holds, and goes on to the direct parse only when the text has both a \<^verbatim>\<open>{\<close>
  and the substring \<^verbatim>\<open>paragraphs\<close>.
\<close>

theorem gate_lacks_either:
  "(no_extractable_paragraphs text_content
      \<longleftrightarrow> CHR ''{'' \<notin> set text_content \<or> \<not> sublist ''paragraphs'' text_content)
   \<and> (text_content \<noteq> [] \<longrightarrow>
        recover_paragraphs json_loads text_content
          = (if CHR ''{'' \<in> set text_content \<and> sublist ''paragraphs'' text_content
             then parse_response json_loads text_content
             else Inr []))"
  by (auto simp: recover_paragraphs_def no_extractable_paragraphs_iff)

theorem gate_lacks_either_witness:
  "no_extractable_paragraphs ''{\"items\": [\"a\"]}''
   \<and> recover_paragraphs Map.empty ''{\"items\": [\"a\"]}'' = Inr []
   \<and> no_extractable_paragraphs ''no paragraphs here''
   \<and> recover_paragraphs Map.empty ''no paragraphs here'' = Inr []
   \<and> \<not> no_extractable_paragraphs ''{\"paragraphs\": [\"a\"]}''
   \<and> recover_paragraphs
        (map_of [(''{\"paragraphs\": [\"a\"]}'', JObject [(''paragraphs'', JArray [JString ''a''])])])
        ''{\"paragraphs\": [\"a\"]}'' = Inr [JString ''a'']"
  using gate_lacks_either [of "''{\"items\": [\"a\"]}''" Map.empty]
    gate_lacks_either [of "''no paragraphs here''" Map.empty]
    gate_lacks_either [of "''{\"paragraphs\": [\"a\"]}''"
      "map_of [(''{\"paragraphs\": [\"a\"]}'', JObject [(''paragraphs'', JArray [JString ''a''])])]"]
  by (simp add: no_extractable_paragraphs_def parse_response_def check_paragraphs_def)

text \<open>
  Claim C1 as it is stated fails on the non-empty completion text
  \<^verbatim>\<open>{"items": ["a"]}\<close>, which has a \<^verbatim>\<open>{\<close> and not the substring
  \<^verbatim>\<open>paragraphs\<close>: the check of line 142 holds and the recovery returns the empty list,
  where the direct parse would have ended in the error of line 210.
\<close>

theorem gate_counterexample:
  "CHR ''{'' \<in> set ''{\"items\": [\"a\"]}''
   \<and> ''{\"items\": [\"a\"]}'' \<noteq> []
   \<and> no_extractable_paragraphs ''{\"items\": [\"a\"]}''
   \<and> recover_paragraphs
        (map_of [(''{\"items\": [\"a\"]}'', JObject [(''items'', JArray [JString ''a''])])])
        ''{\"items\": [\"a\"]}'' = Inr []
   \<and> parse_response
        (map_of [(''{\"items\": [\"a\"]}'', JObject [(''items'', JArray [JString ''a''])])])
        ''{\"items\": [\"a\"]}'' = Inl Invalid_response_format"
  by (simp add: recover_paragraphs_def no_extractable_paragraphs_def parse_response_def
        check_paragraphs_def)

subsection \<open>The parsed response\<close>

text \<open>
  Claim C3. The completion text \<^verbatim>\<open>{"paragraphs": []}\<close> parses directly, to an object
  whose \<^verbatim>\<open>paragraphs\<close> field is the empty list. The claim has the recovery return
  the empty list; the service raises the error of line 210, because
  \<^verbatim>\<open>not parsed_response.get('paragraphs')\<close> holds of an empty list.
\<close>

theorem empty_paragraphs_list_raises:
  "json_loads ''{\"paragraphs\": []}'' = Some (JObject [(''paragraphs'', JArray [])]) \<Longrightarrow>
   recover_paragraphs json_loads ''{\"paragraphs\": []}'' = Inl Invalid_response_format"
  by (simp add: recover_paragraphs_def no_extractable_paragraphs_def parse_response_def
        check_paragraphs_def)

theorem empty_paragraphs_list_raises_witness:
  "recover_paragraphs (map_of [(''{\"paragraphs\": []}'', JObject [(''paragraphs'', JArray [])])])
     ''{\"paragraphs\": []}'' = Inl Invalid_response_format"
  using empty_paragraphs_list_raises
    [of "map_of [(''{\"paragraphs\": []}'', JObject [(''paragraphs'', JArray [])])]"]
  by simp

text \<open>
  Claim C4, as amended. Let the completion text pass the first two checks and let its
  final parse (the direct one, or the one of the repaired candidate after the direct one
  failed) give a JSON object. If the object has no \<^verbatim>\<open>paragraphs\<close> field, or the field
  is not a list, the recovery fails with the error of line 210. If the field is a
  non-empty list, the recovery returns it as it is: the elements are not checked to be
  strings.
\<close>

theorem paragraphs_field_check:
  assumes "text_content \<noteq> []" and "\<not> no_extractable_paragraphs text_content"
    and "json_loads text_content = Some (JObject d)
         \<or> (json_loads text_content = None
            \<and> (\<exists>m. find_json_object (fenced_json_text text_content) = Some m
                   \<and> json_loads (repair_brackets m) = Some (JObject d)))"
  shows "(map_of d ''paragraphs'' = None \<longrightarrow>
            recover_paragraphs json_loads text_content = Inl Invalid_response_format)
       \<and> (\<forall>p. map_of d ''paragraphs'' = Some p \<and> (\<forall>xs. p \<noteq> JArray xs) \<longrightarrow>
            recover_paragraphs json_loads text_content = Inl Invalid_response_format)
       \<and> (\<forall>xs. map_of d ''paragraphs'' = Some (JArray xs) \<and> xs \<noteq> [] \<longrightarrow>
            recover_paragraphs json_loads text_content = Inr xs)"
proof -
  have "parse_response json_loads text_content = check_paragraphs (JObject d)"
    using assms(3) by (auto simp: parse_response_def)
  then have eq: "recover_paragraphs json_loads text_content = check_paragraphs (JObject d)"
    using assms(1,2) by (simp add: recover_paragraphs_def)
  show ?thesis
    unfolding eq check_paragraphs_object by (auto split: json.splits)
qed

lemma find_json_object_prose:
  "find_json_object ''Here you go: {\"paragraphs\": 5} Bye.'' = Some ''{\"paragraphs\": 5}''"
  by code_simp

lemma fenced_json_text_prose:
  "fenced_json_text ''Here you go: {\"paragraphs\": 5} Bye.''
   = ''Here you go: {\"paragraphs\": 5} Bye.''"
  by code_simp

lemma repair_brackets_balanced:
  "repair_brackets ''{\"paragraphs\": 5}'' = ''{\"paragraphs\": 5}''"
  by code_simp

theorem paragraphs_field_check_witness:
  "recover_paragraphs
     (map_of [(''{\"paragraphs\": [1]}'', JObject [(''paragraphs'', JArray [JInt 1])])])
     ''{\"paragraphs\": [1]}'' = Inr [JInt 1]
   \<and> recover_paragraphs
     (map_of [(''{\"note\": \"no paragraphs\"}'', JObject [(''note'', JString ''no paragraphs'')])])
     ''{\"note\": \"no paragraphs\"}'' = Inl Invalid_response_format
   \<and> recover_paragraphs
     (map_of [(''{\"paragraphs\": 5}'', JObject [(''paragraphs'', JInt 5)])])
     ''Here you go: {\"paragraphs\": 5} Bye.'' = Inl Invalid_response_format"
proof -
  have a: "recover_paragraphs
     (map_of [(''{\"paragraphs\": [1]}'', JObject [(''paragraphs'', JArray [JInt 1])])])
     ''{\"paragraphs\": [1]}'' = Inr [JInt 1]"
    using paragraphs_field_check [of "''{\"paragraphs\": [1]}''"
        "map_of [(''{\"paragraphs\": [1]}'', JObject [(''paragraphs'', JArray [JInt 1])])]"
        "[(''paragraphs'', JArray [JInt 1])]"]
    by (simp add: no_extractable_paragraphs_def)
  have b: "recover_paragraphs
     (map_of [(''{\"note\": \"no paragraphs\"}'', JObject [(''note'', JString ''no paragraphs'')])])
     ''{\"note\": \"no paragraphs\"}'' = Inl Invalid_response_format"
    using paragraphs_field_check [of "''{\"note\": \"no paragraphs\"}''"
        "map_of [(''{\"note\": \"no paragraphs\"}'', JObject [(''note'', JString ''no paragraphs'')])]"
        "[(''note'', JString ''no paragraphs'')]"]
    by (simp add: no_extractable_paragraphs_def)
  have c: "recover_paragraphs
     (map_of [(''{\"paragraphs\": 5}'', JObject [(''paragraphs'', JInt 5)])])
     ''Here you go: {\"paragraphs\": 5} Bye.'' = Inl Invalid_response_format"
    using paragraphs_field_check [of "''Here you go: {\"paragraphs\": 5} Bye.''"
        "map_of [(''{\"paragraphs\": 5}'', JObject [(''paragraphs'', JInt 5)])]"
        "[(''paragraphs'', JInt 5)]"]
    by (simp add: no_extractable_paragraphs_def find_json_object_prose fenced_json_text_prose
          repair_brackets_balanced)
  from a b c show ?thesis by simp
qed

text \<open>
  Claim C4 as it is stated fails on the completion text \<^verbatim>\<open>{"paragraphs": [1]}\<close>: the
  list has a number in it, and the recovery returns the list.
\<close>

theorem non_string_elements_counterexample:
  "recover_paragraphs
     (map_of [(''{\"paragraphs\": [1]}'', JObject [(''paragraphs'', JArray [JInt 1])])])
     ''{\"paragraphs\": [1]}'' = Inr [JInt 1]"
  by (simp add: recover_paragraphs_def no_extractable_paragraphs_def parse_response_def
        check_paragraphs_def)

subsection \<open>Truncated output\<close>

text \<open>
  On the truncated text neither pattern of lines 177 and 181 matches, since both end
  with \<^verbatim>\<open>}\<close>, and the text has no fence.
\<close>

lemma find_json_object_truncated:
  "find_json_object ''{\"paragraphs\": [\"a\",\"b\"'' = None"
  by code_simp

lemma fenced_json_text_truncated:
  "fenced_json_text ''{\"paragraphs\": [\"a\",\"b\"'' = ''{\"paragraphs\": [\"a\",\"b\"''"
  by code_simp

text \<open>
  Claim C8. For the truncated completion text \<^verbatim>\<open>{"paragraphs": ["a","b"\<close>, which
  \<^verbatim>\<open>json.loads\<close> rejects, the recovery raises no error: it returns the empty list.
\<close>

theorem truncated_degrades:
  "json_loads ''{\"paragraphs\": [\"a\",\"b\"'' = None \<Longrightarrow>
   recover_paragraphs json_loads ''{\"paragraphs\": [\"a\",\"b\"'' = Inr []"
  by (simp add: recover_paragraphs_def no_extractable_paragraphs_def parse_response_def
        find_json_object_truncated fenced_json_text_truncated)

theorem truncated_degrades_witness:
  "recover_paragraphs Map.empty ''{\"paragraphs\": [\"a\",\"b\"'' = Inr []"
  using truncated_degrades [of Map.empty] by simp

section \<open>Properties of the orchestrator\<close>

subsection \<open>One sub-chunk\<close>

lemma process_single_chunk_sent:
  "process_single_chunk jl be self t ci tc i n w = (r, w') \<Longrightarrow>
   sent w' = sent w @ [chunk_request self i n t]"
  by (auto simp: process_single_chunk_def Let_def split: prod.splits sum.splits list.splits)

lemma process_single_chunk_position:
  "process_single_chunk jl be self t ci tc i n w = (Inl e, w') \<Longrightarrow>
   \<exists>c. e = Failed_to_process_chunk i n c"
  by (auto simp: process_single_chunk_def Let_def split: prod.splits sum.splits list.splits)

lemma process_single_chunk_independent:
  "process_single_chunk jl be self t ci tc i n w = process_single_chunk jl be self t ci' tc' i n w"
  by (simp add: process_single_chunk_def)

lemma process_chunks_independent:
  "process_chunks jl be self ci tc n i cs acc w = process_chunks jl be self ci' tc' n i cs acc w"
proof (induction cs arbitrary: i acc w)
  case Nil
  show ?case by simp
next
  case (Cons c cs)
  show ?case
    using Cons.IH process_single_chunk_independent [of jl be self c ci tc i n w ci' tc']
    by (simp split: prod.splits sum.splits)
qed

subsection \<open>A run of sub-chunks that are processed\<close>

text \<open>
  When the first \<open>k\<close> sub-chunks are processed, each in the world its predecessor left,
  the loop goes on with the sub-chunks behind them, and the requests sent are theirs.
\<close>

lemma process_chunks_run:
  assumes "k \<le> length cs" and "length ws = Suc k" and "length pss = k"
    and "\<forall>j<k. process_single_chunk jl be self (cs ! j) ci tc (i0 + j) n (ws ! j)
                 = (Inr (pss ! j), ws ! Suc j)"
  shows "process_chunks jl be self ci tc n i0 cs acc (ws ! 0)
         = process_chunks jl be self ci tc n (i0 + k) (drop k cs) (acc @ concat pss) (ws ! k)"
  using assms
proof (induction k arbitrary: ws pss)
  case 0
  then show ?case by simp
next
  case (Suc k)
  let ?ws = "take (Suc k) ws" and ?pss = "take k pss"
  have run: "process_chunks jl be self ci tc n i0 cs acc (?ws ! 0)
         = process_chunks jl be self ci tc n (i0 + k) (drop k cs) (acc @ concat ?pss) (?ws ! k)"
  proof (rule Suc.IH)
    show "k \<le> length cs" using Suc.prems(1) by simp
    show "length ?ws = Suc k" using Suc.prems(2) by simp
    show "length ?pss = k" using Suc.prems(3) by simp
    show "\<forall>j<k. process_single_chunk jl be self (cs ! j) ci tc (i0 + j) n (?ws ! j)
                 = (Inr (?pss ! j), ?ws ! Suc j)"
      using Suc.prems(4) by simp
  qed
  have k: "k < length cs" using Suc.prems(1) by simp
  have step: "process_single_chunk jl be self (cs ! k) ci tc (i0 + k) n (ws ! k)
                 = (Inr (pss ! k), ws ! Suc k)"
    using Suc.prems(4) by simp
  have pss: "concat pss = concat ?pss @ pss ! k"
    using Suc.prems(3) by (metis concat.simps concat_append lessI self_append_conv
        take_Suc_conv_app_nth take_all_iff order_refl)
  have "process_chunks jl be self ci tc n (i0 + k) (drop k cs) (acc @ concat ?pss) (ws ! k)
        = process_chunks jl be self ci tc n (i0 + Suc k) (drop (Suc k) cs)
            (acc @ concat pss) (ws ! Suc k)"
    using step pss by (simp add: Cons_nth_drop_Suc [OF k, symmetric])
  then show ?case using run by simp
qed

lemma sent_run:
  assumes "k \<le> length cs" and "length ws = Suc k" and "length pss = k"
    and "\<forall>j<k. process_single_chunk jl be self (cs ! j) ci tc (i0 + j) n (ws ! j)
                 = (Inr (pss ! j), ws ! Suc j)"
  shows "sent (ws ! k)
         = sent (ws ! 0) @ map (\<lambda>j. chunk_request self (i0 + j) n (cs ! j)) [0..<k]"
  using assms
proof (induction k arbitrary: ws pss)
  case 0
  then show ?case by simp
next
  case (Suc k)
  let ?ws = "take (Suc k) ws" and ?pss = "take k pss"
  have "sent (?ws ! k)
         = sent (?ws ! 0) @ map (\<lambda>j. chunk_request self (i0 + j) n (cs ! j)) [0..<k]"
  proof (rule Suc.IH)
    show "k \<le> length cs" using Suc.prems(1) by simp
    show "length ?ws = Suc k" using Suc.prems(2) by simp
    show "length ?pss = k" using Suc.prems(3) by simp
    show "\<forall>j<k. process_single_chunk jl be self (cs ! j) ci tc (i0 + j) n (?ws ! j)
                 = (Inr (?pss ! j), ?ws ! Suc j)"
      using Suc.prems(4) by simp
  qed
  moreover have "sent (ws ! Suc k) = sent (ws ! k) @ [chunk_request self (i0 + k) n (cs ! k)]"
    using Suc.prems(4) process_single_chunk_sent by blast
  ultimately show ?case by simp
qed

lemma process_book_text_stops:
  assumes "api_key self \<noteq> []"
    and "chunk_book_text book_text 100000 = Some chunks"
    and "k < length chunks" and "length ws = Suc k" and "length pss = k"
    and "\<forall>j<k.
           process_single_chunk json_loads backend self (chunks ! j) chunk_index total_chunks
             (Suc j) (length chunks) (ws ! j) = (Inr (pss ! j), ws ! Suc j)"
    and "process_single_chunk json_loads backend self (chunks ! k) chunk_index total_chunks
           (Suc k) (length chunks) (ws ! k) = (Inl e, w')"
  shows "process_book_text json_loads backend self book_text chunk_index total_chunks (ws ! 0)
           = Some (Inl e, w')"
proof -
  have le: "k \<le> length chunks" using assms(3) by simp
  have ok: "\<forall>j<k.
           process_single_chunk json_loads backend self (chunks ! j) chunk_index total_chunks
             (1 + j) (length chunks) (ws ! j) = (Inr (pss ! j), ws ! Suc j)"
    using assms(6) by simp
  have "process_chunks json_loads backend self chunk_index total_chunks (length chunks) 1
          chunks [] (ws ! 0)
        = process_chunks json_loads backend self chunk_index total_chunks (length chunks)
            (1 + k) (drop k chunks) ([] @ concat pss) (ws ! k)"
    by (rule process_chunks_run [OF le assms(4,5) ok])
  also have "\<dots> = (Inl e, w')"
    using assms(7) by (simp add: Cons_nth_drop_Suc [OF assms(3), symmetric])
  finally show ?thesis
    using assms(1,2) by (simp add: process_book_text_def)
qed

lemma process_single_chunk_empty:
  assumes "backend (backend_state w) (chunk_request self i n t) = (Inr completion, s')"
    and "choices completion = c # cs"
    and "content c = None \<or> content c = Some []"
  shows "process_single_chunk json_loads backend self t chunk_index total_chunks i n w
         = (Inl (Failed_to_process_chunk i n OpenAI_returned_empty_response),
            \<lparr>backend_state = s', sent = sent w @ [chunk_request self i n t]\<rparr>)"
  using assms by (auto simp: process_single_chunk_def recover_paragraphs_def)

subsection \<open>Runs on the long text\<close>

lemma chunks_of_long_text:
  "chunk_book_text long_text 100000 = Some long_text_chunks"
  by (simp add: long_text_def long_text_chunks_def chunk_book_text_def chunk_loop.simps py_slice_def)

lemma run_json_reply:
  assumes "n < length replies" and "replies ! n = Inr (text_completion t)"
    and "t \<noteq> []" and "\<not> no_extractable_paragraphs t"
    and "jl t = Some (JObject [(''paragraphs'', JArray (p # ps))])"
  shows "process_single_chunk jl (scripted_backend replies) self c ci tc i m
           \<lparr>backend_state = n, sent = rs\<rparr>
         = (Inr (p # ps), \<lparr>backend_state = Suc n, sent = rs @ [chunk_request self i m c]\<rparr>)"
  using assms
  by (simp add: process_single_chunk_def scripted_backend_def text_completion_def
        recover_paragraphs_def parse_response_def check_paragraphs_def)

lemma run_plain_reply:
  assumes "n < length replies" and "replies ! n = Inr (text_completion t)"
    and "t \<noteq> []" and "no_extractable_paragraphs t"
  shows "process_single_chunk jl (scripted_backend replies) self c ci tc i m
           \<lparr>backend_state = n, sent = rs\<rparr>
         = (Inr [], \<lparr>backend_state = Suc n, sent = rs @ [chunk_request self i m c]\<rparr>)"
  using assms
  by (simp add: process_single_chunk_def scripted_backend_def text_completion_def
        recover_paragraphs_def)

lemma run_api_error:
  assumes "n < length replies" and "replies ! n = Inl msg"
  shows "process_single_chunk jl (scripted_backend replies) self c ci tc i m
           \<lparr>backend_state = n, sent = rs\<rparr>
         = (Inl (Failed_to_process_chunk i m (OpenAI_API_call_failed msg)),
            \<lparr>backend_state = Suc n, sent = rs @ [chunk_request self i m c]\<rparr>)"
  using assms
  by (simp add: process_single_chunk_def scripted_backend_def)

lemma run_empty_reply:
  assumes "n < length replies" and "replies ! n = Inr (text_completion [])"
  shows "process_single_chunk jl (scripted_backend replies) self c ci tc i m
           \<lparr>backend_state = n, sent = rs\<rparr>
         = (Inl (Failed_to_process_chunk i m OpenAI_returned_empty_response),
            \<lparr>backend_state = Suc n, sent = rs @ [chunk_request self i m c]\<rparr>)"
  using assms
  by (simp add: process_single_chunk_def scripted_backend_def text_completion_def
        recover_paragraphs_def)

subsection \<open>The aggregate\<close>

text \<open>
  Claim C2. Let the service have its key, let the chunker split the text into
  \<open>chunks\<close>, and let the call for every sub-chunk \<open>j\<close>, made in the world \<open>ws ! j\<close> that
  the calls before it left, return the paragraph list \<open>pss ! j\<close>. Then the aggregate's
  \<^verbatim>\<open>paragraphs\<close> is the concatenation of these lists in the order of the sub-chunks,
  and \<^verbatim>\<open>total_paragraphs\<close> is its length.
\<close>

theorem aggregate_is_concat:
  assumes "api_key self \<noteq> []"
    and "chunk_book_text book_text 100000 = Some chunks"
    and "length ws = Suc (length chunks)" and "length pss = length chunks"
    and "\<forall>j<length chunks.
           process_single_chunk json_loads backend self (chunks ! j) chunk_index total_chunks
             (Suc j) (length chunks) (ws ! j) = (Inr (pss ! j), ws ! Suc j)"
  shows "process_book_text json_loads backend self book_text chunk_index total_chunks (ws ! 0)
         = Some (Inr \<lparr>status = ''success'', paragraphs = concat pss,
                       total_paragraphs = length (concat pss)\<rparr>, ws ! length chunks)"
proof -
  have "process_chunks json_loads backend self chunk_index total_chunks (length chunks) 1
          chunks [] (ws ! 0)
        = process_chunks json_loads backend self chunk_index total_chunks (length chunks)
            (1 + length chunks) (drop (length chunks) chunks) ([] @ concat pss)
            (ws ! length chunks)"
    by (rule process_chunks_run) (use assms in simp_all)
  then show ?thesis
    using assms(1,2) by (simp add: process_book_text_def)
qed

theorem aggregate_is_concat_witness:
  "process_book_text test_json_loads
     (scripted_backend [Inr (text_completion ''{\"paragraphs\": [\"a\"]}''),
                        Inr (text_completion ''{\"paragraphs\": [\"b\", \"c\"]}''),
                        Inr (text_completion ''Only a table of contents.'')])
     test_service long_text 1 1 \<lparr>backend_state = 0, sent = []\<rparr>
   = Some (Inr \<lparr>status = ''success'',
                 paragraphs = [JString ''a'', JString ''b'', JString ''c''],
                 total_paragraphs = 3\<rparr>,
           \<lparr>backend_state = 3, sent = [test_request 0, test_request 1, test_request 2]\<rparr>)"
proof -
  let ?replies = "[Inr (text_completion ''{\"paragraphs\": [\"a\"]}''),
                   Inr (text_completion ''{\"paragraphs\": [\"b\", \"c\"]}''),
                   Inr (text_completion ''Only a table of contents.'')]"
  let ?ws = "[\<lparr>backend_state = 0, sent = []\<rparr>,
              \<lparr>backend_state = 1, sent = [test_request 0]\<rparr>,
              \<lparr>backend_state = 2, sent = [test_request 0, test_request 1]\<rparr>,
              \<lparr>backend_state = 3, sent = [test_request 0, test_request 1, test_request 2]\<rparr>]"
  let ?pss = "[[JString ''a''], [JString ''b'', JString ''c''], []]"
  have key: "api_key test_service \<noteq> []" by (simp add: test_service_def)
  have lw: "length ?ws = Suc (length long_text_chunks)" by (simp add: long_text_chunks_def)
  have lp: "length ?pss = length long_text_chunks" by (simp add: long_text_chunks_def)
  have c0: "process_single_chunk test_json_loads (scripted_backend ?replies) test_service
              (long_text_chunks ! 0) 1 1 (Suc 0) 3 (?ws ! 0) = (Inr (?pss ! 0), ?ws ! Suc 0)"
    by (simp add: run_json_reply test_json_loads_def no_extractable_paragraphs_def test_request_def)
  have c1: "process_single_chunk test_json_loads (scripted_backend ?replies) test_service
              (long_text_chunks ! 1) 1 1 (Suc 1) 3 (?ws ! 1) = (Inr (?pss ! 1), ?ws ! Suc 1)"
    using run_json_reply [of 1 ?replies "''{\"paragraphs\": [\"b\", \"c\"]}''" test_json_loads]
    by (simp add: test_json_loads_def no_extractable_paragraphs_def test_request_def)
  have c2: "process_single_chunk test_json_loads (scripted_backend ?replies) test_service
              (long_text_chunks ! 2) 1 1 (Suc 2) 3 (?ws ! 2) = (Inr (?pss ! 2), ?ws ! Suc 2)"
    using run_plain_reply [of 2 ?replies "''Only a table of contents.''"]
    by (simp add: no_extractable_paragraphs_def test_request_def)
  have len: "length long_text_chunks = 3" by (simp add: long_text_chunks_def)
  have all: "\<forall>j<length long_text_chunks.
           process_single_chunk test_json_loads (scripted_backend ?replies) test_service
             (long_text_chunks ! j) 1 1 (Suc j) (length long_text_chunks) (?ws ! j)
           = (Inr (?pss ! j), ?ws ! Suc j)"
  proof (intro allI impI)
    fix j assume "j < length long_text_chunks"
    then have "j = 0 \<or> j = 1 \<or> j = 2" using len by auto
    then show "process_single_chunk test_json_loads (scripted_backend ?replies) test_service
             (long_text_chunks ! j) 1 1 (Suc j) (length long_text_chunks) (?ws ! j)
           = (Inr (?pss ! j), ?ws ! Suc j)"
      using c0 c1 c2 unfolding len by auto
  qed
  show ?thesis
    using aggregate_is_concat [OF key chunks_of_long_text lw lp all] len by simp
qed

subsection \<open>Failures\<close>

text \<open>
  Claim C7. The recovery of an empty completion text is the error of line 139, not an
  empty paragraph list. When the sub-chunks before sub-chunk \<open>k\<close> (counted from 0) were
  processed and the backend answers the call for sub-chunk \<open>k\<close> with a completion whose
  text is missing or empty, the whole submission fails with that error, at the position
  of the sub-chunk.
\<close>

theorem empty_completion_fails:
  assumes "api_key self \<noteq> []"
    and "chunk_book_text book_text 100000 = Some chunks"
    and "k < length chunks" and "length ws = Suc k" and "length pss = k"
    and "\<forall>j<k.
           process_single_chunk json_loads backend self (chunks ! j) chunk_index total_chunks
             (Suc j) (length chunks) (ws ! j) = (Inr (pss ! j), ws ! Suc j)"
    and "backend (backend_state (ws ! k))
           (chunk_request self (Suc k) (length chunks) (chunks ! k)) = (Inr completion, s')"
    and "choices completion = c # cs"
    and "content c = None \<or> content c = Some []"
  shows "recover_paragraphs json_loads [] = Inl OpenAI_returned_empty_response
         \<and> process_book_text json_loads backend self book_text chunk_index total_chunks (ws ! 0)
           = Some (Inl (Failed_to_process_chunk (Suc k) (length chunks)
                          OpenAI_returned_empty_response),
                   \<lparr>backend_state = s',
                    sent = sent (ws ! k)
                           @ [chunk_request self (Suc k) (length chunks) (chunks ! k)]\<rparr>)"
proof -
  have "process_single_chunk json_loads backend self (chunks ! k) chunk_index total_chunks
           (Suc k) (length chunks) (ws ! k)
         = (Inl (Failed_to_process_chunk (Suc k) (length chunks) OpenAI_returned_empty_response),
            \<lparr>backend_state = s',
             sent = sent (ws ! k) @ [chunk_request self (Suc k) (length chunks) (chunks ! k)]\<rparr>)"
    by (rule process_single_chunk_empty [where backend = backend, OF assms(7,8,9)])
  from process_book_text_stops [OF assms(1-6) this]
  show ?thesis by (simp add: recover_paragraphs_def)
qed

theorem empty_completion_fails_witness:
  "process_book_text test_json_loads
     (scripted_backend [Inr (text_completion ''{\"paragraphs\": [\"a\"]}''),
                        Inr (text_completion ''''),
                        Inr (text_completion ''{\"paragraphs\": [\"b\", \"c\"]}'')])
     test_service long_text 1 1 \<lparr>backend_state = 0, sent = []\<rparr>
   = Some (Inl (Failed_to_process_chunk 2 3 OpenAI_returned_empty_response),
           \<lparr>backend_state = 2, sent = [test_request 0, test_request 1]\<rparr>)"
proof -
  let ?replies = "[Inr (text_completion ''{\"paragraphs\": [\"a\"]}''),
                   Inr (text_completion ''''),
                   Inr (text_completion ''{\"paragraphs\": [\"b\", \"c\"]}'')]"
  let ?ws = "[\<lparr>backend_state = 0, sent = []\<rparr>,
              \<lparr>backend_state = 1, sent = [test_request 0]\<rparr>]"
  let ?pss = "[[JString ''a'']]"
  have key: "api_key test_service \<noteq> []" by (simp add: test_service_def)
  have len: "length long_text_chunks = 3" by (simp add: long_text_chunks_def)
  have k: "1 < length long_text_chunks" using len by simp
  have lw: "length ?ws = Suc 1" by simp
  have lp: "length ?pss = 1" by simp
  have ok: "\<forall>j<1.
           process_single_chunk test_json_loads (scripted_backend ?replies) test_service
             (long_text_chunks ! j) 1 1 (Suc j) (length long_text_chunks) (?ws ! j)
           = (Inr (?pss ! j), ?ws ! Suc j)"
    by (simp add: run_json_reply test_json_loads_def no_extractable_paragraphs_def
          test_request_def len)
  have call: "scripted_backend ?replies (backend_state (?ws ! 1))
           (chunk_request test_service (Suc 1) (length long_text_chunks) (long_text_chunks ! 1))
         = (Inr (text_completion ''''), 2)"
    by (simp add: scripted_backend_def)
  have ch: "choices (text_completion '''') = \<lparr>content = Some [], finish_reason = ''stop''\<rparr> # []"
    by (simp add: text_completion_def)
  have em: "content \<lparr>content = Some [], finish_reason = ''stop''\<rparr> = None
            \<or> content \<lparr>content = Some [], finish_reason = ''stop''\<rparr> = Some []"
    by simp
  show ?thesis
    using empty_completion_fails [OF key chunks_of_long_text k lw lp ok call ch em] len
    by (simp add: test_request_def)
qed

text \<open>
  Claim C9. When the sub-chunks before sub-chunk \<open>k\<close> (counted from 0) were processed
  and the call for sub-chunk \<open>k\<close> ends in an error, whichever it is (the API call failed,
  the completion was empty, the response format was invalid), the submission ends in that
  error, which carries the position of the sub-chunk, and in the world that this call
  left: the requests sent during the submission are the ones of the sub-chunks up to
  \<open>k\<close>, and none of a later sub-chunk.
\<close>

theorem fail_fast:
  assumes "api_key self \<noteq> []"
    and "chunk_book_text book_text 100000 = Some chunks"
    and "k < length chunks" and "length ws = Suc k" and "length pss = k"
    and "\<forall>j<k.
           process_single_chunk json_loads backend self (chunks ! j) chunk_index total_chunks
             (Suc j) (length chunks) (ws ! j) = (Inr (pss ! j), ws ! Suc j)"
    and "process_single_chunk json_loads backend self (chunks ! k) chunk_index total_chunks
           (Suc k) (length chunks) (ws ! k) = (Inl e, w')"
  shows "process_book_text json_loads backend self book_text chunk_index total_chunks (ws ! 0)
           = Some (Inl e, w')
         \<and> (\<exists>c. e = Failed_to_process_chunk (Suc k) (length chunks) c)
         \<and> sent w' = sent (ws ! 0)
             @ map (\<lambda>j. chunk_request self (Suc j) (length chunks) (chunks ! j)) [0..<Suc k]"
proof -
  have le: "k \<le> length chunks" using assms(3) by simp
  have ok: "\<forall>j<k.
           process_single_chunk json_loads backend self (chunks ! j) chunk_index total_chunks
             (1 + j) (length chunks) (ws ! j) = (Inr (pss ! j), ws ! Suc j)"
    using assms(6) by simp
  have res: "process_book_text json_loads backend self book_text chunk_index
      total_chunks (ws ! 0) = Some (Inl e, w')"
    by (rule process_book_text_stops [OF assms])
  have pos: "\<exists>c. e = Failed_to_process_chunk (Suc k) (length chunks) c"
    using assms(7) by (rule process_single_chunk_position)
  have "sent (ws ! k) = sent (ws ! 0)
          @ map (\<lambda>j. chunk_request self (1 + j) (length chunks) (chunks ! j)) [0..<k]"
    by (rule sent_run [OF le assms(4,5) ok])
  moreover have "sent w' = sent (ws ! k) @ [chunk_request self (Suc k) (length chunks) (chunks ! k)]"
    using assms(7) by (rule process_single_chunk_sent)
  ultimately have "sent w' = sent (ws ! 0)
             @ map (\<lambda>j. chunk_request self (Suc j) (length chunks) (chunks ! j)) [0..<Suc k]"
    by simp
  with res pos show ?thesis by simp
qed

theorem fail_fast_witness:
  "process_book_text test_json_loads
     (scripted_backend [Inr (text_completion ''{\"paragraphs\": [\"a\"]}''),
                        Inl ''Request timed out.'',
                        Inr (text_completion ''{\"paragraphs\": [\"b\", \"c\"]}'')])
     test_service long_text 1 1 \<lparr>backend_state = 0, sent = []\<rparr>
   = Some (Inl (Failed_to_process_chunk 2 3 (OpenAI_API_call_failed ''Request timed out.'')),
           \<lparr>backend_state = 2, sent = [test_request 0, test_request 1]\<rparr>)"
proof -
  let ?replies = "[Inr (text_completion ''{\"paragraphs\": [\"a\"]}''),
                   Inl ''Request timed out.'',
                   Inr (text_completion ''{\"paragraphs\": [\"b\", \"c\"]}'')]"
  let ?ws = "[\<lparr>backend_state = 0, sent = []\<rparr>,
              \<lparr>backend_state = 1, sent = [test_request 0]\<rparr>]"
  let ?pss = "[[JString ''a'']]"
  have key: "api_key test_service \<noteq> []" by (simp add: test_service_def)
  have len: "length long_text_chunks = 3" by (simp add: long_text_chunks_def)
  have k: "1 < length long_text_chunks" using len by simp
  have lw: "length ?ws = Suc 1" by simp
  have lp: "length ?pss = 1" by simp
  have ok: "\<forall>j<1.
           process_single_chunk test_json_loads (scripted_backend ?replies) test_service
             (long_text_chunks ! j) 1 1 (Suc j) (length long_text_chunks) (?ws ! j)
           = (Inr (?pss ! j), ?ws ! Suc j)"
    by (simp add: run_json_reply test_json_loads_def no_extractable_paragraphs_def
          test_request_def len)
  have bad: "process_single_chunk test_json_loads (scripted_backend ?replies) test_service
             (long_text_chunks ! 1) 1 1 (Suc 1) (length long_text_chunks) (?ws ! 1)
           = (Inl (Failed_to_process_chunk 2 3 (OpenAI_API_call_failed ''Request timed out.'')),
              \<lparr>backend_state = 2, sent = [test_request 0, test_request 1]\<rparr>)"
    using run_api_error [of 1 ?replies "''Request timed out.''"]
    by (simp add: test_request_def len)
  show ?thesis
    using fail_fast [OF key chunks_of_long_text k lw lp ok bad] len
    by (simp add: test_request_def)
qed

subsection \<open>The position of the submission\<close>

text \<open>
  Claim C10. For every text, backend, \<open>json_loads\<close> and world, the result of
  \<^verbatim>\<open>process_book_text\<close> and the world it leaves, with the requests sent to the
  backend, are the same for all values of \<^verbatim>\<open>chunk_index\<close> and \<^verbatim>\<open>total_chunks\<close>.
\<close>

theorem chunk_index_noninterference:
  "process_book_text json_loads backend self book_text chunk_index total_chunks w
   = process_book_text json_loads backend self book_text chunk_index' total_chunks' w"
  using process_chunks_independent [of json_loads backend self chunk_index total_chunks _ 1 _ "[]" w
      chunk_index' total_chunks']
  by (simp add: process_book_text_def split: option.splits)

end
